theory Spec2Isabelle
  imports Main "HOL-Library.Word" "HOL-Library.AList"
begin

section \<open>JavaScript strings and values\<close>

text \<open>
  A JavaScript string is a sequence of UTF-16 code units. The regular expressions of
  \<^verbatim>\<open>server.js\<close> carry the flag \<^verbatim>\<open>i\<close> only (no \<^verbatim>\<open>u\<close>), so they match code unit by
  code unit; an emoji outside the Basic Multilingual Plane is a surrogate pair.
\<close>

type_synonym code_unit = "16 word"
type_synonym jsstring = "code_unit list"

text \<open>An ASCII literal of the source as a JavaScript string.\<close>

definition ascii :: "string \<Rightarrow> jsstring" where
  "ascii s = map of_char s"

text \<open>
  The values that flow through the handlers: \<^verbatim>\<open>undefined\<close>, \<^verbatim>\<open>null\<close>, \<^verbatim>\<open>NaN\<close>,
  integral numbers, strings and plain objects (an object literal is the list of its
  properties in source order).
\<close>

datatype jsval =
    JUndefined
  | JNull
  | JNaN
  | JNum int
  | JStr jsstring
  | JObj "(string \<times> jsval) list"

text \<open>ToBoolean, as used by \<^verbatim>\<open>!x\<close>, \<^verbatim>\<open>x || y\<close> and \<^verbatim>\<open>if (x)\<close>.\<close>

fun truthy :: "jsval \<Rightarrow> bool" where
  "truthy JUndefined = False"
| "truthy JNull = False"
| "truthy JNaN = False"
| "truthy (JNum n) = (n \<noteq> 0)"
| "truthy (JStr s) = (s \<noteq> [])"
| "truthy (JObj ps) = True"

text \<open>\<^verbatim>\<open>x || y\<close>.\<close>

definition js_or :: "jsval \<Rightarrow> jsval \<Rightarrow> jsval" where
  "js_or x y = (if truthy x then x else y)"

text \<open>Property read \<^verbatim>\<open>obj.key\<close> on an object literal: \<^verbatim>\<open>undefined\<close> when absent.\<close>

definition get_prop :: "(string \<times> jsval) list \<Rightarrow> string \<Rightarrow> jsval" where
  "get_prop obj key = (case map_of obj key of None \<Rightarrow> JUndefined | Some v \<Rightarrow> v)"

text \<open>
  White space of ECMAScript: the code units matched by \<^verbatim>\<open>\s\<close> and stripped by
  \<^verbatim>\<open>String.prototype.trim\<close> and by \<^verbatim>\<open>parseInt\<close> (WhiteSpace and LineTerminator).
\<close>

definition is_space :: "code_unit \<Rightarrow> bool" where
  "is_space c \<longleftrightarrow>
     c \<in> {0x09, 0x0A, 0x0B, 0x0C, 0x0D, 0x20, 0xA0, 0x1680, 0x2028, 0x2029,
          0x202F, 0x205F, 0x3000, 0xFEFF}
     \<or> (0x2000 \<le> c \<and> c \<le> 0x200A)"

text \<open>\<^verbatim>\<open>String.prototype.trim\<close>.\<close>

definition trim :: "jsstring \<Rightarrow> jsstring" where
  "trim s = rev (dropWhile is_space (rev (dropWhile is_space s)))"

section \<open>The regular expressions of \<^verbatim>\<open>parseAgentResponse\<close>\<close>

text \<open>
  Canonicalize of the ECMAScript pattern semantics under \<^verbatim>\<open>i\<close> without \<^verbatim>\<open>u\<close>: a code
  unit is compared through its upper case, except that a code unit from 128 on never
  canonicalizes to one below 128. The pattern characters of \<^verbatim>\<open>server.js\<close> are ASCII
  capitals, \<^verbatim>\<open>_\<close>, \<^verbatim>\<open>:\<close>, surrogates and U+FE0F; surrogates and U+FE0F have no case
  mapping and are the upper case of nothing else, so on comparisons against these
  characters Canonicalize acts as ASCII upper-casing, which is what is written here.
\<close>

definition canonicalize :: "code_unit \<Rightarrow> code_unit" where
  "canonicalize c = (if 0x61 \<le> c \<and> c \<le> 0x7A then c - 0x20 else c)"

text \<open>
  The fragment of the pattern language the six expressions use. Every quantifier of the
  source (\<^verbatim>\<open>\s*\<close>, \<^verbatim>\<open>:?\<close>, \<^verbatim>\<open>[\s\S]*?\<close>) is applied to a single-character atom.
\<close>

datatype atom =
    Chr code_unit   \<comment> \<open>a pattern character\<close>
  | Space           \<comment> \<open>\<^verbatim>\<open>\s\<close>\<close>
  | AnyChar         \<comment> \<open>\<^verbatim>\<open>[\s\S]\<close>\<close>

datatype regex =
    Eps                 \<comment> \<open>the empty pattern\<close>
  | One atom
  | Eos                 \<comment> \<open>\<^verbatim>\<open>$\<close> without the flag \<^verbatim>\<open>m\<close>\<close>
  | Cat regex regex
  | Alt regex regex     \<comment> \<open>\<^verbatim>\<open>a|b\<close>\<close>
  | Star atom           \<comment> \<open>greedy \<^verbatim>\<open>a*\<close>\<close>
  | StarLazy atom       \<comment> \<open>lazy \<^verbatim>\<open>a*?\<close>\<close>
  | Opt atom            \<comment> \<open>greedy \<^verbatim>\<open>a?\<close>\<close>
  | Group regex         \<comment> \<open>capture group 1\<close>
  | Ahead regex         \<comment> \<open>\<^verbatim>\<open>(?=a)\<close>\<close>

fun atom_ok :: "atom \<Rightarrow> code_unit \<Rightarrow> bool" where
  "atom_ok (Chr p) c = (canonicalize p = canonicalize c)"
| "atom_ok Space c = is_space c"
| "atom_ok AnyChar c = True"

text \<open>
  A matcher state is the input still to be read and the text of capture group 1
  (\<open>None\<close> while the group has not taken part). The matcher returns every way the
  pattern can match at the current position, in backtracking order: the head of the list
  is the match a backtracking engine finds first.
\<close>

type_synonym mstate = "jsstring \<times> jsstring option"

fun star_greedy :: "(code_unit \<Rightarrow> bool) \<Rightarrow> jsstring \<Rightarrow> jsstring list" where
  "star_greedy p [] = [[]]"
| "star_greedy p (c # cs) = (if p c then star_greedy p cs else []) @ [c # cs]"

fun star_lazy :: "(code_unit \<Rightarrow> bool) \<Rightarrow> jsstring \<Rightarrow> jsstring list" where
  "star_lazy p [] = [[]]"
| "star_lazy p (c # cs) = (c # cs) # (if p c then star_lazy p cs else [])"

fun ms :: "regex \<Rightarrow> mstate \<Rightarrow> mstate list" where
  "ms Eps st = [st]"
| "ms (One a) (inp, cap) =
     (case inp of [] \<Rightarrow> [] | c # cs \<Rightarrow> if atom_ok a c then [(cs, cap)] else [])"
| "ms Eos (inp, cap) = (if inp = [] then [(inp, cap)] else [])"
| "ms (Cat r1 r2) st = concat (map (ms r2) (ms r1 st))"
| "ms (Alt r1 r2) st = ms r1 st @ ms r2 st"
| "ms (Star a) (inp, cap) = map (\<lambda>rest. (rest, cap)) (star_greedy (atom_ok a) inp)"
| "ms (StarLazy a) (inp, cap) = map (\<lambda>rest. (rest, cap)) (star_lazy (atom_ok a) inp)"
| "ms (Opt a) (inp, cap) =
     (case inp of [] \<Rightarrow> [] | c # cs \<Rightarrow> if atom_ok a c then [(cs, cap)] else []) @ [(inp, cap)]"
| "ms (Group r) (inp, cap) =
     map (\<lambda>(rest, _). (rest, Some (take (length inp - length rest) inp))) (ms r (inp, cap))"
| "ms (Ahead r) (inp, cap) =
     (case ms r (inp, cap) of [] \<Rightarrow> [] | (_, cap') # _ \<Rightarrow> [(inp, cap')])"

text \<open>
  \<^verbatim>\<open>response.match(re)\<close> for a pattern without the flag \<^verbatim>\<open>g\<close>: the match is tried at
  every start index from 0 to the length of the string, and the first index with a match
  wins. The result is \<open>None\<close> for \<^verbatim>\<open>null\<close>, else the value of \<^verbatim>\<open>match[1]\<close>
  (\<open>None\<close> for \<^verbatim>\<open>undefined\<close>).
\<close>

definition first_match :: "mstate list \<Rightarrow> jsstring option option" where
  "first_match results = (case results of [] \<Rightarrow> None | (_, cap) # _ \<Rightarrow> Some cap)"

fun js_match :: "jsstring \<Rightarrow> regex \<Rightarrow> jsstring option option" where
  "js_match [] re = first_match (ms re ([], None))"
| "js_match (c # cs) re =
     (case first_match (ms re (c # cs, None)) of
        None \<Rightarrow> js_match cs re
      | Some m \<Rightarrow> Some m)"

text \<open>Building patterns: a sequence, a literal string, a list of alternatives.\<close>

definition seq :: "regex list \<Rightarrow> regex" where
  "seq rs = foldr Cat rs Eps"

definition lit :: "jsstring \<Rightarrow> regex" where
  "lit s = seq (map (\<lambda>c. One (Chr c)) s)"

fun alts :: "regex list \<Rightarrow> regex" where
  "alts [] = Eps"
| "alts [r] = r"
| "alts (r # rs) = Alt r (alts rs)"

text \<open>The six emoji of the section markers, as they stand in the source file.\<close>

definition glyph_symptom :: jsstring where
  "glyph_symptom = [0xD83D, 0xDD0D]"             \<comment> \<open>U+1F50D\<close>

definition glyph_risk :: jsstring where
  "glyph_risk = [0xD83D, 0xDCCA]"                \<comment> \<open>U+1F4CA\<close>

definition glyph_fraud :: jsstring where
  "glyph_fraud = [0xD83D, 0xDEE1, 0xFE0F]"       \<comment> \<open>U+1F6E1 U+FE0F\<close>

definition glyph_security :: jsstring where
  "glyph_security = [0xD83D, 0xDD10]"            \<comment> \<open>U+1F510\<close>

definition glyph_coordinator :: jsstring where
  "glyph_coordinator = [0xD83E, 0xDD16]"         \<comment> \<open>U+1F916\<close>

definition glyph_recommendations :: jsstring where
  "glyph_recommendations = [0xD83D, 0xDC8A]"     \<comment> \<open>U+1F48A\<close>

definition colon :: code_unit where
  "colon = 0x3A"

text \<open>The table \<^verbatim>\<open>sections\<close>, one pattern per key, in source order.\<close>

definition re_symptom :: regex where
  "re_symptom = seq
     [lit glyph_symptom, Star Space, lit (ascii ''SYMPTOM_ANALYZER''), Opt (Chr colon),
      Star Space, Group (StarLazy AnyChar),
      Ahead (alts
        [lit glyph_risk, lit (ascii ''RISK_PREDICTOR''),
         lit glyph_fraud, lit (ascii ''FRAUD_DETECTOR''),
         lit glyph_security, lit (ascii ''SECURITY_GUARDIAN''),
         lit glyph_coordinator, lit (ascii ''COORDINATOR''),
         lit glyph_recommendations, lit (ascii ''RECOMMENDATIONS''), Eos])]"

definition re_risk :: regex where
  "re_risk = seq
     [lit glyph_risk, Star Space, lit (ascii ''RISK_PREDICTOR''), Opt (Chr colon),
      Star Space, Group (StarLazy AnyChar),
      Ahead (alts
        [lit glyph_fraud, lit (ascii ''FRAUD_DETECTOR''),
         lit glyph_security, lit (ascii ''SECURITY_GUARDIAN''),
         lit glyph_coordinator, lit (ascii ''COORDINATOR''),
         lit glyph_recommendations, lit (ascii ''RECOMMENDATIONS''), Eos])]"

definition re_fraud :: regex where
  "re_fraud = seq
     [lit glyph_fraud, Star Space, lit (ascii ''FRAUD_DETECTOR''), Opt (Chr colon),
      Star Space, Group (StarLazy AnyChar),
      Ahead (alts
        [lit glyph_security, lit (ascii ''SECURITY_GUARDIAN''),
         lit glyph_coordinator, lit (ascii ''COORDINATOR''),
         lit glyph_recommendations, lit (ascii ''RECOMMENDATIONS''), Eos])]"

definition re_security :: regex where
  "re_security = seq
     [lit glyph_security, Star Space, lit (ascii ''SECURITY_GUARDIAN''), Opt (Chr colon),
      Star Space, Group (StarLazy AnyChar),
      Ahead (alts
        [lit glyph_coordinator, lit (ascii ''COORDINATOR''),
         lit glyph_recommendations, lit (ascii ''RECOMMENDATIONS''), Eos])]"

definition re_coordinator :: regex where
  "re_coordinator = seq
     [lit glyph_coordinator, Star Space, lit (ascii ''COORDINATOR_INSIGHTS''),
      Opt (Chr colon), Star Space, Group (StarLazy AnyChar),
      Ahead (alts [lit glyph_recommendations, lit (ascii ''RECOMMENDATIONS''), Eos])]"

definition re_recommendations :: regex where
  "re_recommendations = seq
     [lit glyph_recommendations, Star Space, lit (ascii ''RECOMMENDATIONS''),
      Opt (Chr colon), Star Space, Group (StarLazy AnyChar), Eos]"

definition sections :: "(string \<times> regex) list" where
  "sections =
     [(''symptom'', re_symptom),
      (''risk'', re_risk),
      (''fraud'', re_fraud),
      (''security'', re_security),
      (''coordinator'', re_coordinator),
      (''recommendations'', re_recommendations)]"

section \<open>\<^verbatim>\<open>parseAgentResponse\<close>\<close>

text \<open>The object \<^verbatim>\<open>agents\<close> as initialised: six keys, each the empty string.\<close>

definition agents_init :: "(string \<times> jsval) list" where
  "agents_init =
     [(''symptom'', JStr []),
      (''risk'', JStr []),
      (''fraud'', JStr []),
      (''security'', JStr []),
      (''coordinator'', JStr []),
      (''recommendations'', JStr [])]"

text \<open>
  The body of the \<^verbatim>\<open>forEach\<close> callback: \<^verbatim>\<open>match && match[1]\<close> holds when the pattern
  matched and group 1 is a non-empty string; then \<^verbatim>\<open>agents[key]\<close> is overwritten.
\<close>

definition parse_step :: "jsstring \<Rightarrow> string \<times> regex \<Rightarrow> (string \<times> jsval) list \<Rightarrow> (string \<times> jsval) list" where
  "parse_step response kr agents =
     (case js_match response (snd kr) of
        Some (Some m1) \<Rightarrow>
          if m1 \<noteq> [] then AList.update (fst kr) (JStr (trim m1)) agents else agents
      | _ \<Rightarrow> agents)"

definition parseAgentResponse :: "jsstring \<Rightarrow> (string \<times> jsval) list" where
  "parseAgentResponse response = fold (parse_step response) sections agents_init"

section \<open>\<^verbatim>\<open>parseInt(age, 10)\<close>\<close>

text \<open>
  \<^verbatim>\<open>parseInt\<close> with radix 10: leading white space is skipped, one sign is read, then the
  longest run of decimal digits; with no digit the result is \<^verbatim>\<open>NaN\<close>. The number is
  kept as the mathematical integer the digits denote (the rounding of a Number beyond
  2^53 is not part of this model).
\<close>

definition is_digit :: "code_unit \<Rightarrow> bool" where
  "is_digit c \<longleftrightarrow> 0x30 \<le> c \<and> c \<le> 0x39"

definition digits_value :: "jsstring \<Rightarrow> int" where
  "digits_value ds = foldl (\<lambda>acc c. 10 * acc + uint (c - 0x30)) 0 ds"

definition parseInt10 :: "jsstring \<Rightarrow> jsval" where
  "parseInt10 s =
     (let t = dropWhile is_space s;
          sign = (case t of c # _ \<Rightarrow> if c = 0x2D then - 1 else 1 | [] \<Rightarrow> (1::int));
          u = (case t of c # cs \<Rightarrow> if c = 0x2B \<or> c = 0x2D then cs else t | [] \<Rightarrow> t);
          z = takeWhile is_digit u
      in if z = [] then JNaN else JNum (sign * digits_value z))"

section \<open>The external services\<close>

text \<open>
  The handlers talk to two services: the chat endpoint behind \<^verbatim>\<open>fetch\<close> and the
  \<^verbatim>\<open>cases\<close> table behind the Supabase client. Their answers are parameters of the
  model; every call a handler makes is recorded, in order, in a list of events.
\<close>

datatype js_error = JsError (message: jsstring)

record chat_message =
  role :: string
  content :: jsval

datatype event =
    ModelCall "chat_message list"           \<comment> \<open>the \<^verbatim>\<open>fetch\<close> of \<^verbatim>\<open>callOllama\<close>\<close>
  | StoreInsert "(string \<times> jsval) list"     \<comment> \<open>\<^verbatim>\<open>from("cases").insert(row).select()\<close>\<close>
  | StoreSelect                             \<comment> \<open>\<^verbatim>\<open>from("cases").select("id").limit(1)\<close>\<close>

text \<open>
  What \<^verbatim>\<open>fetch\<close> does: it rejects, or it resolves to a response with its \<^verbatim>\<open>ok\<close> flag,
  its text, and the outcome of reading \<^verbatim>\<open>(await response.json()).message.content\<close>
  (which throws on a body that is not JSON or has no \<^verbatim>\<open>message\<close>).
\<close>

datatype fetch_outcome =
    FetchRejects js_error
  | FetchResponse bool jsstring "js_error + jsval"

text \<open>
  What the insert does: it rejects, or it resolves to \<^verbatim>\<open>{ data, error }\<close>, where
  \<^verbatim>\<open>data\<close> is \<^verbatim>\<open>null\<close> or the list of returned rows and \<^verbatim>\<open>error\<close> is \<^verbatim>\<open>null\<close> or an
  error object. The select resolves to \<^verbatim>\<open>{ error }\<close> or rejects.
\<close>

datatype insert_outcome =
    InsertRejects js_error
  | InsertResolves "(string \<times> jsval) list list option" "js_error option"

datatype select_outcome =
    SelectRejects js_error
  | SelectResolves "js_error option"

record services =
  fetch :: "chat_message list \<Rightarrow> fetch_outcome"
  insert_case :: "(string \<times> jsval) list \<Rightarrow> insert_outcome"
  select_case :: select_outcome

text \<open>\<^verbatim>\<open>callOllama\<close>: one \<^verbatim>\<open>fetch\<close>; a response that is not \<^verbatim>\<open>ok\<close> throws its text.\<close>

definition callOllama :: "services \<Rightarrow> chat_message list \<Rightarrow> (js_error + jsval) \<times> event list" where
  "callOllama sv messages =
     (case fetch sv messages of
        FetchRejects e \<Rightarrow> Inl e
      | FetchResponse ok txt data_message_content \<Rightarrow>
          if \<not> ok then Inl (JsError txt) else data_message_content,
      [ModelCall messages])"

section \<open>The handlers\<close>

record response =
  status :: nat
  body :: "(string \<times> jsval) list"

text \<open>
  A handler runs once the body parsers and the upload middleware have accepted the
  request, with \<^verbatim>\<open>req.body\<close> an object. The fields of \<^verbatim>\<open>req.body\<close> the analyze
  handler reads are text fields of the submitted form: each is a string or absent
  (\<open>None\<close> for \<^verbatim>\<open>undefined\<close>). \<open>req_file\<close> is \<^verbatim>\<open>req.file.originalname\<close>, \<open>None\<close>
  when nothing was uploaded.
\<close>

record analyze_request =
  req_symptoms :: "jsstring option"
  req_age :: "jsstring option"
  req_history :: "jsstring option"
  req_name :: "jsstring option"
  req_userCode :: "jsstring option"
  req_file :: "jsstring option"

definition field :: "jsstring option \<Rightarrow> jsval" where
  "field v = (case v of None \<Rightarrow> JUndefined | Some s \<Rightarrow> JStr s)"

text \<open>A text field inside a template literal, and \<^verbatim>\<open>${x || "default"}\<close>.\<close>

definition to_text :: "jsstring option \<Rightarrow> jsstring" where
  "to_text v = (case v of None \<Rightarrow> ascii ''undefined'' | Some s \<Rightarrow> s)"

definition or_default :: "jsstring option \<Rightarrow> jsstring \<Rightarrow> jsstring" where
  "or_default v d = (if truthy (field v) then to_text v else d)"

definition unlines :: "jsstring list \<Rightarrow> jsstring" where
  "unlines ls = concat (map (\<lambda>l. l @ [0x0A]) ls)"

definition systemPrompt :: jsstring where
  "systemPrompt = [0x0A] @ unlines
     [ascii ''You are MediMind, a SINGLE LLM acting as SIX agents:'',
      [],
      glyph_symptom @ ascii '' SYMPTOM_ANALYZER'',
      glyph_risk @ ascii '' RISK_PREDICTOR'',
      glyph_fraud @ ascii '' FRAUD_DETECTOR'',
      glyph_security @ ascii '' SECURITY_GUARDIAN'',
      glyph_coordinator @ ascii '' COORDINATOR_INSIGHTS'',
      glyph_recommendations @ ascii '' RECOMMENDATIONS'',
      [],
      ascii ''Rules:'',
      ascii ''- NO doctor / hospital / clinic suggestions'',
      ascii ''- NO medication or prescriptions'',
      ascii ''- Only explanations, risks, lifestyle & monitoring'',
      ascii ''- Output EXACTLY six sections with emojis'']"

definition userPrompt :: "analyze_request \<Rightarrow> jsstring" where
  "userPrompt req = [0x0A] @ unlines
     [ascii ''PATIENT_NAME: '' @ or_default (req_name req) (ascii ''Guest''),
      ascii ''MEDIMIND_CODE: ''
        @ or_default (req_userCode req) (ascii ''ANON-0000''),
      [],
      ascii ''SYMPTOMS: '' @ to_text (req_symptoms req),
      ascii ''AGE: '' @ to_text (req_age req),
      ascii ''MEDICAL_HISTORY: ''
        @ or_default (req_history req) (ascii ''None''),
      ascii ''PRESCRIPTION: ''
        @ (case req_file req of
             Some originalname \<Rightarrow> ascii ''Uploaded ('' @ originalname @ ascii '')''
           | None \<Rightarrow> ascii ''None''),
      [],
      ascii ''Respond EXACTLY in this format:'',
      [],
      glyph_symptom @ ascii '' SYMPTOM_ANALYZER:'',
      glyph_risk @ ascii '' RISK_PREDICTOR:'',
      glyph_fraud @ ascii '' FRAUD_DETECTOR:'',
      glyph_security @ ascii '' SECURITY_GUARDIAN:'',
      glyph_coordinator @ ascii '' COORDINATOR_INSIGHTS:'',
      glyph_recommendations @ ascii '' RECOMMENDATIONS:'']"

definition analyze_messages :: "analyze_request \<Rightarrow> chat_message list" where
  "analyze_messages req =
     [\<lparr>role = ''system'', content = JStr systemPrompt\<rparr>,
      \<lparr>role = ''user'', content = JStr (userPrompt req)\<rparr>]"

text \<open>The object handed to \<^verbatim>\<open>insert\<close>.\<close>

definition case_row :: "analyze_request \<Rightarrow> jsval \<Rightarrow> (string \<times> jsval) list \<Rightarrow> (string \<times> jsval) list" where
  "case_row req fullResponse agents =
     [(''user_id'', JNull),
      (''symptoms'', field (req_symptoms req)),
      (''age'', parseInt10 (to_text (req_age req))),
      (''history'', js_or (field (req_history req)) JNull),
      (''symptom_analyzer'', js_or (get_prop agents ''symptom'') JNull),
      (''risk_predictor'', js_or (get_prop agents ''risk'') JNull),
      (''fraud_detector'', js_or (get_prop agents ''fraud'') JNull),
      (''security_guardian'', js_or (get_prop agents ''security'') JNull),
      (''coordinator_insights'', js_or (get_prop agents ''coordinator'') JNull),
      (''recommendations'', js_or (get_prop agents ''recommendations'') JNull),
      (''full_response'', fullResponse),
      (''prescription_text'', JNull),
      (''prescription_flag'',
         JStr (case req_file req of Some _ \<Rightarrow> ascii ''UPLOADED'' | None \<Rightarrow> ascii ''NONE''))]"

text \<open>\<^verbatim>\<open>data?.[0]?.id || null\<close>.\<close>

definition case_id :: "(string \<times> jsval) list list option \<Rightarrow> jsval" where
  "case_id data =
     (case data of
        Some (r # _) \<Rightarrow> js_or (get_prop r ''id'') JNull
      | _ \<Rightarrow> JNull)"

definition error_response :: "nat \<Rightarrow> string \<Rightarrow> response" where
  "error_response code msg = \<lparr>status = code, body = [(''error'', JStr (ascii msg))]\<rparr>"

text \<open>
  \<^verbatim>\<open>POST /api/analyze\<close>. Whatever is thrown inside the \<^verbatim>\<open>try\<close> block (by \<^verbatim>\<open>callOllama\<close>,
  by \<^verbatim>\<open>response.match\<close> on a reply that is not a string, by a rejected insert) ends in
  the \<^verbatim>\<open>catch\<close> block. The result is the response sent and the calls made.
\<close>

definition ollama_failed :: response where
  "ollama_failed = error_response 500 ''Ollama inference failed. Make sure Ollama is running.''"

definition analyze :: "services \<Rightarrow> analyze_request \<Rightarrow> response \<times> event list" where
  "analyze sv req =
     (if \<not> truthy (field (req_symptoms req)) \<or> \<not> truthy (field (req_age req))
      then (error_response 400 ''Missing symptoms or age'', [])
      else
        (case callOllama sv (analyze_messages req) of
           (Inl err, ev1) \<Rightarrow> (ollama_failed, ev1)
         | (Inr fullResponse, ev1) \<Rightarrow>
             (case fullResponse of
                JStr reply \<Rightarrow>
                  (let agents = parseAgentResponse reply;
                       row = case_row req fullResponse agents
                   in case insert_case sv row of
                        InsertRejects err \<Rightarrow> (ollama_failed, ev1 @ [StoreInsert row])
                      | InsertResolves data error \<Rightarrow>
                          (case error of
                             Some e \<Rightarrow>
                               (error_response 500 ''Failed to save case to database'',
                                ev1 @ [StoreInsert row])
                           | None \<Rightarrow>
                               (\<lparr>status = 200,
                                 body = [(''fullResponse'', fullResponse),
                                         (''agents'', JObj agents),
                                         (''caseId'', case_id data)]\<rparr>,
                                ev1 @ [StoreInsert row])))
              | _ \<Rightarrow> (ollama_failed, ev1))))"

text \<open>\<^verbatim>\<open>POST /api/chat\<close>: the two fields go into the messages as they are.\<close>

record chat_request =
  req_caseContext :: "jsstring option"
  req_question :: "jsstring option"

definition chat_messages :: "chat_request \<Rightarrow> chat_message list" where
  "chat_messages req =
     [\<lparr>role = ''system'',
       content = JStr (ascii
         (''You are MediMind follow-up assistant. Continue discussion based on the given ''
          @ ''case context. Do NOT give medical prescriptions or tell the user to visit any ''
          @ ''doctor / hospital. Focus on explanations, risks, lifestyle and monitoring.''))\<rparr>,
      \<lparr>role = ''user'', content = field (req_caseContext req)\<rparr>,
      \<lparr>role = ''user'', content = field (req_question req)\<rparr>]"

definition chat :: "services \<Rightarrow> chat_request \<Rightarrow> response \<times> event list" where
  "chat sv req =
     (case callOllama sv (chat_messages req) of
        (Inl err, ev) \<Rightarrow> (error_response 500 ''Chat failed'', ev)
      | (Inr reply, ev) \<Rightarrow> (\<lparr>status = 200, body = [(''reply'', reply)]\<rparr>, ev))"

text \<open>
  \<^verbatim>\<open>GET /api/health\<close>: an error the select reports is thrown and caught like a rejected
  select; the response carries its message.
\<close>

definition health :: "services \<Rightarrow> response \<times> event list" where
  "health sv =
     (case select_case sv of
        SelectResolves None \<Rightarrow> (\<lparr>status = 200, body = [(''status'', JStr (ascii ''ok''))]\<rparr>, [StoreSelect])
      | SelectResolves (Some err) \<Rightarrow>
          (\<lparr>status = 500,
            body = [(''status'', JStr (ascii ''error'')), (''message'', JStr (message err))]\<rparr>,
           [StoreSelect])
      | SelectRejects err \<Rightarrow>
          (\<lparr>status = 500,
            body = [(''status'', JStr (ascii ''error'')), (''message'', JStr (message err))]\<rparr>,
           [StoreSelect]))"

section \<open>What the patterns compute, stated on the text\<close>

text \<open>
  The definitions of this section describe a match directly on the reply, without the
  matcher: where a marker starts, where the section body begins, and where it stops.
  The lemmas below prove that \<open>js_match\<close> on the patterns of \<open>sections\<close> computes them.
\<close>

text \<open>The token \<open>tok\<close> starts the text, compared through \<open>canonicalize\<close>.\<close>

fun prefix_ci :: "jsstring \<Rightarrow> jsstring \<Rightarrow> bool" where
  "prefix_ci [] inp = True"
| "prefix_ci (p # ps) [] = False"
| "prefix_ci (p # ps) (c # cs) = (canonicalize p = canonicalize c \<and> prefix_ci ps cs)"

text \<open>The first suffix of the text, from the left, that satisfies \<open>P\<close>.\<close>

fun first_suffix :: "(jsstring \<Rightarrow> bool) \<Rightarrow> jsstring \<Rightarrow> jsstring option" where
  "first_suffix P [] = (if P [] then Some [] else None)"
| "first_suffix P (c # cs) = (if P (c # cs) then Some (c # cs) else first_suffix P cs)"

text \<open>The text up to, and without, the first position whose suffix satisfies \<open>P\<close>.\<close>

fun take_until :: "(jsstring \<Rightarrow> bool) \<Rightarrow> jsstring \<Rightarrow> jsstring" where
  "take_until P [] = []"
| "take_until P (c # cs) = (if P (c # cs) then [] else c # take_until P cs)"

text \<open>
  A marker starts a text when the emoji \<open>g\<close> stands there, then any white space, then
  the label \<open>l\<close> in either case; \<open>after_marker\<close> is what follows the label.
\<close>

definition marker_at :: "jsstring \<Rightarrow> jsstring \<Rightarrow> jsstring \<Rightarrow> bool" where
  "marker_at g l inp \<longleftrightarrow>
     prefix_ci g inp \<and> prefix_ci l (dropWhile is_space (drop (length g) inp))"

definition after_marker :: "jsstring \<Rightarrow> jsstring \<Rightarrow> jsstring \<Rightarrow> jsstring" where
  "after_marker g l inp = drop (length l) (dropWhile is_space (drop (length g) inp))"

text \<open>The body of a section: one colon, if there, and the white space after it are skipped.\<close>

definition drop_colon :: "jsstring \<Rightarrow> jsstring" where
  "drop_colon inp = (case inp of [] \<Rightarrow> [] | c # cs \<Rightarrow> if c = colon then cs else inp)"

definition section_body :: "jsstring \<Rightarrow> jsstring" where
  "section_body inp = dropWhile is_space (drop_colon inp)"

text \<open>A body stops where the text ends or one of the tokens \<open>toks\<close> starts.\<close>

definition stop_here :: "jsstring list \<Rightarrow> jsstring \<Rightarrow> bool" where
  "stop_here toks inp \<longleftrightarrow> inp = [] \<or> list_ex (\<lambda>t. prefix_ci t inp) toks"

text \<open>
  The six sections in priority order: key, emoji, label of the start marker, and the word
  that stands for the section in the lookaheads of the earlier sections (for the
  coordinator that word is \<^verbatim>\<open>COORDINATOR\<close>, not the whole label).
\<close>

definition marker_table :: "(string \<times> jsstring \<times> jsstring \<times> jsstring) list" where
  "marker_table =
     [(''symptom'', glyph_symptom, ascii ''SYMPTOM_ANALYZER'', ascii ''SYMPTOM_ANALYZER''),
      (''risk'', glyph_risk, ascii ''RISK_PREDICTOR'', ascii ''RISK_PREDICTOR''),
      (''fraud'', glyph_fraud, ascii ''FRAUD_DETECTOR'', ascii ''FRAUD_DETECTOR''),
      (''security'', glyph_security, ascii ''SECURITY_GUARDIAN'', ascii ''SECURITY_GUARDIAN''),
      (''coordinator'', glyph_coordinator, ascii ''COORDINATOR_INSIGHTS'', ascii ''COORDINATOR''),
      (''recommendations'', glyph_recommendations, ascii ''RECOMMENDATIONS'',
         ascii ''RECOMMENDATIONS'')]"

definition keys :: "string list" where
  "keys = map fst marker_table"

definition glyph_of :: "string \<Rightarrow> jsstring" where
  "glyph_of key = (case map_of marker_table key of Some (g, l, w) \<Rightarrow> g | None \<Rightarrow> [])"

definition label_of :: "string \<Rightarrow> jsstring" where
  "label_of key = (case map_of marker_table key of Some (g, l, w) \<Rightarrow> l | None \<Rightarrow> [])"

definition stop_word_of :: "string \<Rightarrow> jsstring" where
  "stop_word_of key = (case map_of marker_table key of Some (g, l, w) \<Rightarrow> w | None \<Rightarrow> [])"

definition later_keys :: "string \<Rightarrow> string list" where
  "later_keys key = tl (dropWhile (\<lambda>k. k \<noteq> key) keys)"

text \<open>The tokens that end the body of a section: emoji and word of every later section.\<close>

definition stops_of :: "string \<Rightarrow> jsstring list" where
  "stops_of key = concat (map (\<lambda>k. [glyph_of k, stop_word_of k]) (later_keys key))"

definition marker_starts :: "string \<Rightarrow> jsstring \<Rightarrow> bool" where
  "marker_starts key inp = marker_at (glyph_of key) (label_of key) inp"

definition has_marker :: "string \<Rightarrow> jsstring \<Rightarrow> bool" where
  "has_marker key s \<longleftrightarrow> first_suffix (marker_starts key) s \<noteq> None"

text \<open>
  The text group 1 captures when the marker of \<open>key\<close> starts \<open>inp\<close>, and the value of
  the key for a whole reply.
\<close>

definition section_capture :: "string \<Rightarrow> jsstring \<Rightarrow> jsstring" where
  "section_capture key inp =
     take_until (stop_here (stops_of key))
       (section_body (after_marker (glyph_of key) (label_of key) inp))"

definition section_text :: "string \<Rightarrow> jsstring \<Rightarrow> jsstring" where
  "section_text key s =
     (case first_suffix (marker_starts key) s of
        None \<Rightarrow> []
      | Some inp \<Rightarrow> trim (section_capture key inp))"

text \<open>
  The extraction rule in the words of the specification: the body of a section runs up
  to the next marker, that is the emoji and label pair, of a later section, or to the end
  of the reply.
\<close>

definition next_marker_here :: "string \<Rightarrow> jsstring \<Rightarrow> bool" where
  "next_marker_here key inp \<longleftrightarrow>
     inp = [] \<or> list_ex (\<lambda>k. marker_starts k inp) (later_keys key)"

definition claimed_text :: "string \<Rightarrow> jsstring \<Rightarrow> jsstring" where
  "claimed_text key s =
     (case first_suffix (marker_starts key) s of
        None \<Rightarrow> []
      | Some inp \<Rightarrow>
          trim (take_until (next_marker_here key)
                  (section_body (after_marker (glyph_of key) (label_of key) inp))))"

text \<open>What one round of the \<^verbatim>\<open>forEach\<close> writes for a pattern, if anything.\<close>

definition step_value :: "jsstring \<Rightarrow> regex \<Rightarrow> jsval option" where
  "step_value s re =
     (case js_match s re of
        Some (Some m1) \<Rightarrow> if m1 \<noteq> [] then Some (JStr (trim m1)) else None
      | _ \<Rightarrow> None)"

text \<open>The column of the \<^verbatim>\<open>cases\<close> row that holds each section.\<close>

definition section_columns :: "(string \<times> string) list" where
  "section_columns =
     [(''symptom_analyzer'', ''symptom''),
      (''risk_predictor'', ''risk''),
      (''fraud_detector'', ''fraud''),
      (''security_guardian'', ''security''),
      (''coordinator_insights'', ''coordinator''),
      (''recommendations'', ''recommendations'')]"

section \<open>Sample requests, replies and services\<close>

definition reply_label_only :: jsstring where
  "reply_label_only = glyph_symptom @ ascii '' SYMPTOM_ANALYZER: see RECOMMENDATIONS''"

definition reply_lower_word :: jsstring where
  "reply_lower_word = glyph_risk @ ascii ''RISK_PREDICTOR: ask coordinator''"


definition request_ok :: analyze_request where
  "request_ok =
     \<lparr>req_symptoms = Some (ascii ''cough''), req_age = Some (ascii ''30''),
      req_history = None, req_name = None, req_userCode = None, req_file = None\<rparr>"

definition request_empty_symptoms :: analyze_request where
  "request_empty_symptoms = request_ok\<lparr>req_symptoms := Some []\<rparr>"

definition request_age_abc :: analyze_request where
  "request_age_abc = request_ok\<lparr>req_age := Some (ascii ''abc'')\<rparr>"

definition services_ok :: services where
  "services_ok =
     \<lparr>fetch = (\<lambda>_. FetchResponse True [] (Inr (JStr reply_lower_word))),
      insert_case = (\<lambda>_. InsertResolves (Some [[(''id'', JNum 7)]]) None),
      select_case = SelectResolves None\<rparr>"

definition services_model_down :: services where
  "services_model_down =
     services_ok\<lparr>fetch := (\<lambda>_. FetchRejects (JsError (ascii ''ECONNREFUSED'')))\<rparr>"

definition services_store_down :: services where
  "services_store_down =
     services_ok\<lparr>insert_case := (\<lambda>_. InsertResolves None (Some (JsError (ascii ''timeout'')))),
                 select_case := SelectResolves (Some (JsError (ascii ''timeout'')))\<rparr>"

section \<open>The matcher on the six patterns\<close>

lemma ms_seq_Nil: "ms (seq []) st = [st]"
  by (simp add: seq_def)

lemma ms_seq_Cons: "ms (seq (r # rs)) st = concat (map (ms (seq rs)) (ms r st))"
  by (simp add: seq_def)

lemma ms_lit: "ms (lit l) (inp, cap) = (if prefix_ci l inp then [(drop (length l) inp, cap)] else [])"
proof (induction l arbitrary: inp)
  case Nil
  then show ?case by (simp add: lit_def seq_def)
next
  case (Cons p ps)
  have step: "ms (lit (p # ps)) st = concat (map (ms (lit ps)) (ms (One (Chr p)) st))" for st
    by (simp add: lit_def seq_def)
  show ?case
  proof (cases inp)
    case Nil
    then show ?thesis by (simp add: step)
  next
    case (Cons c cs)
    then show ?thesis using Cons.IH [of cs] by (simp add: step)
  qed
qed

lemma star_greedy_shape:
  "\<exists>ys. star_greedy p inp = dropWhile p inp # ys \<and> (\<forall>y \<in> set ys. \<exists>c cs. y = c # cs \<and> p c)"
proof (induction inp)
  case Nil
  then show ?case by simp
next
  case (Cons c cs)
  show ?case
  proof (cases "p c")
    case True
    from Cons.IH obtain ys where
      ys: "star_greedy p cs = dropWhile p cs # ys" "\<forall>y \<in> set ys. \<exists>c cs. y = c # cs \<and> p c"
      by blast
    have "star_greedy p (c # cs) = dropWhile p (c # cs) # (ys @ [c # cs])"
      using True ys(1) by simp
    moreover have "\<forall>y \<in> set (ys @ [c # cs]). \<exists>c cs. y = c # cs \<and> p c"
      using True ys(2) by auto
    ultimately show ?thesis by blast
  next
    case False
    then show ?thesis by simp
  qed
qed

lemma star_lazy_all: "star_lazy (\<lambda>_. True) (c # cs) = (c # cs) # star_lazy (\<lambda>_. True) cs"
  by simp


lemma ms_alts_Cons: "rs \<noteq> [] \<Longrightarrow> ms (alts (r # rs)) st = ms r st @ ms (alts rs) st"
  by (cases rs) simp_all

lemma ms_alts_lits:
  "ms (alts (map lit toks @ [Eos])) (inp, cap) =
     concat (map (\<lambda>t. if prefix_ci t inp then [(drop (length t) inp, cap)] else []) toks)
     @ (if inp = [] then [(inp, cap)] else [])"
proof (induction toks)
  case Nil
  then show ?case by simp
next
  case (Cons t ts)
  have "ms (alts (map lit (t # ts) @ [Eos])) (inp, cap)
        = ms (lit t) (inp, cap) @ ms (alts (map lit ts @ [Eos])) (inp, cap)"
    using ms_alts_Cons [of "map lit ts @ [Eos]" "lit t" "(inp, cap)"] by simp
  then show ?case using Cons.IH by (simp add: ms_lit)
qed

lemma ms_alts_lits_cap: "m \<in> set (ms (alts (map lit toks @ [Eos])) (inp, cap)) \<Longrightarrow> snd m = cap"
  by (auto simp: ms_alts_lits split: if_splits)

lemma ms_alts_lits_empty:
  "ms (alts (map lit toks @ [Eos])) (inp, cap) = [] \<longleftrightarrow> \<not> stop_here toks inp"
  by (auto simp: ms_alts_lits stop_here_def list_ex_iff)

lemma ms_ahead_stops:
  "ms (Ahead (alts (map lit toks @ [Eos]))) (inp, cap) =
     (if stop_here toks inp then [(inp, cap)] else [])"
proof (cases "ms (alts (map lit toks @ [Eos])) (inp, cap)")
  case Nil
  then show ?thesis using ms_alts_lits_empty [of toks inp cap] by simp
next
  case (Cons m rest)
  then have "snd m = cap" using ms_alts_lits_cap [of m toks inp cap] by simp
  moreover have "stop_here toks inp" using Cons ms_alts_lits_empty [of toks inp cap] by simp
  ultimately show ?thesis using Cons by (cases m) simp
qed

lemma ms_Eos_stops: "ms Eos (inp, cap) = (if stop_here [] inp then [(inp, cap)] else [])"
  by (simp add: stop_here_def)

lemma star_lazy_length: "r \<in> set (star_lazy p cs) \<Longrightarrow> length r \<le> length cs"
  by (induction cs) (auto split: if_splits)

lemma ms_group_any:
  "ms (Group (StarLazy AnyChar)) (inp, cap) =
     map (\<lambda>r. (r, Some (take (length inp - length r) inp))) (star_lazy (\<lambda>_. True) inp)"
proof -
  have "atom_ok AnyChar = (\<lambda>_. True)" by (rule ext) simp
  then show ?thesis by (simp add: comp_def)
qed

lemma search_first:
  assumes B: "\<And>inp cap. ms B (inp, cap) = (if P inp then [(inp, cap)] else [])"
    and P0: "P []"
  shows "\<exists>rest.
     concat (map (ms B)
       (map (\<lambda>r. (r, Some (pre @ take (length cur - length r) cur))) (star_lazy (\<lambda>_. True) cur)))
     = (drop (length (take_until P cur)) cur, Some (pre @ take_until P cur)) # rest"
proof (induction cur arbitrary: pre)
  case Nil
  then show ?case using P0 by (simp add: B)
next
  case (Cons c cs)
  show ?case
  proof (cases "P (c # cs)")
    case True
    then show ?thesis by (simp add: B)
  next
    case False
    let ?f = "\<lambda>r. (r, Some (pre @ take (length (c # cs) - length r) (c # cs)))"
    let ?g = "\<lambda>r. (r, Some ((pre @ [c]) @ take (length cs - length r) cs))"
    have eq: "map ?f (star_lazy (\<lambda>_. True) cs) = map ?g (star_lazy (\<lambda>_. True) cs)"
      by (rule map_cong) (auto dest: star_lazy_length simp: Suc_diff_le)
    from Cons.IH [of "pre @ [c]"] obtain rest where rest:
      "concat (map (ms B) (map ?g (star_lazy (\<lambda>_. True) cs)))
       = (drop (length (take_until P cs)) cs, Some ((pre @ [c]) @ take_until P cs)) # rest"
      by blast
    have "concat (map (ms B) (map ?f (star_lazy (\<lambda>_. True) (c # cs))))
          = ms B (?f (c # cs)) @ concat (map (ms B) (map ?f (star_lazy (\<lambda>_. True) cs)))"
      by simp
    also have "ms B (?f (c # cs)) = []"
      using False by (simp add: B)
    also have "map ?f (star_lazy (\<lambda>_. True) cs) = map ?g (star_lazy (\<lambda>_. True) cs)"
      by (rule eq)
    finally have "concat (map (ms B) (map ?f (star_lazy (\<lambda>_. True) (c # cs))))
          = (drop (length (take_until P cs)) cs, Some ((pre @ [c]) @ take_until P cs)) # rest"
      using rest by simp
    then show ?thesis using False by simp
  qed
qed

lemma concat_map_Eps: "concat (map (ms Eps) xs) = xs"
  by (induction xs) simp_all

lemma ms_seq_single: "ms (seq [B]) st = ms B st"
  by (simp add: seq_def concat_map_Eps)

lemma capture_first:
  assumes B: "\<And>inp cap. ms B (inp, cap) = (if P inp then [(inp, cap)] else [])"
    and P0: "P []"
  shows "\<exists>rest. ms (seq [Group (StarLazy AnyChar), B]) (inp, cap)
     = (drop (length (take_until P inp)) inp, Some (take_until P inp)) # rest"
proof -
  have single: "ms (seq [B]) = ms B"
    by (rule ext) (rule ms_seq_single)
  have "ms (seq [Group (StarLazy AnyChar), B]) (inp, cap)
        = concat (map (ms (seq [B])) (ms (Group (StarLazy AnyChar)) (inp, cap)))"
    by (rule ms_seq_Cons)
  also have "\<dots> = concat (map (ms B)
            (map (\<lambda>r. (r, Some ([] @ take (length inp - length r) inp)))
              (star_lazy (\<lambda>_. True) inp)))"
    unfolding single ms_group_any by simp
  finally show ?thesis using search_first [OF B P0, of "[]" inp] by simp
qed


lemma canonicalize_colon: "canonicalize colon = canonicalize c \<longleftrightarrow> c = colon"
  by (auto simp: canonicalize_def colon_def eq_diff_eq)

lemma ms_opt_colon:
  "\<exists>rest. ms (Opt (Chr colon)) (inp, cap) = (drop_colon inp, cap) # rest"
  by (cases inp) (auto simp: drop_colon_def canonicalize_colon)

lemma concat_first: "xs = x # xs' \<Longrightarrow> f x = y # ys \<Longrightarrow> \<exists>zs. concat (map f xs) = y # zs"
  by simp

lemma tail_first:
  assumes B: "\<And>inp cap. ms B (inp, cap) = (if P inp then [(inp, cap)] else [])"
    and P0: "P []"
  shows "\<exists>rest.
     ms (seq [Opt (Chr colon), Star Space, Group (StarLazy AnyChar), B]) (inp, cap)
     = (drop (length (take_until P (section_body inp))) (section_body inp),
        Some (take_until P (section_body inp))) # rest"
proof -
  let ?b = "section_body inp"
  obtain r1 where r1: "ms (Opt (Chr colon)) (inp, cap) = (drop_colon inp, cap) # r1"
    using ms_opt_colon by blast
  obtain ys where ys: "star_greedy is_space (drop_colon inp) = ?b # ys"
    using star_greedy_shape [of is_space "drop_colon inp"] by (auto simp: section_body_def)
  obtain r3 where r3: "ms (seq [Group (StarLazy AnyChar), B]) (?b, cap)
      = (drop (length (take_until P ?b)) ?b, Some (take_until P ?b)) # r3"
    using capture_first [OF B P0] by blast
  have space_ok: "atom_ok Space = is_space" by (rule ext) simp
  have "ms (Star Space) (drop_colon inp, cap) = (?b, cap) # map (\<lambda>r. (r, cap)) ys"
    using ys by (simp add: space_ok)
  then obtain r2 where r2:
    "ms (seq [Star Space, Group (StarLazy AnyChar), B]) (drop_colon inp, cap)
      = (drop (length (take_until P ?b)) ?b, Some (take_until P ?b)) # r2"
    using concat_first [of "ms (Star Space) (drop_colon inp, cap)" "(?b, cap)" _
        "ms (seq [Group (StarLazy AnyChar), B])", OF _ r3]
    unfolding ms_seq_Cons [of "Star Space"] by blast
  show ?thesis
    using concat_first [of "ms (Opt (Chr colon)) (inp, cap)" "(drop_colon inp, cap)" r1
        "ms (seq [Star Space, Group (StarLazy AnyChar), B])", OF r1 r2]
    unfolding ms_seq_Cons [of "Opt (Chr colon)"] by blast
qed

lemma marker_step:
  assumes l: "l = p # ps" "\<And>c. is_space c \<Longrightarrow> canonicalize p \<noteq> canonicalize c"
  shows "ms (seq (lit g # Star Space # lit l # T)) (inp, cap) =
     (if marker_at g l inp then ms (seq T) (after_marker g l inp, cap) else [])"
proof -
  have label: "ms (seq (lit l # T)) (x, cap) =
      (if prefix_ci l x then ms (seq T) (drop (length l) x, cap) else [])" for x
    unfolding ms_seq_Cons by (simp add: ms_lit)
  have spaces: "ms (seq (Star Space # lit l # T)) (x, cap)
      = ms (seq (lit l # T)) (dropWhile is_space x, cap)" for x
  proof -
    obtain ys where ys: "star_greedy is_space x = dropWhile is_space x # ys"
      "\<forall>y \<in> set ys. \<exists>c cs. y = c # cs \<and> is_space c"
      using star_greedy_shape [of is_space x] by blast
    have space_ok: "atom_ok Space = is_space" by (rule ext) simp
    have none: "ms (seq (lit l # T)) (y, cap) = []" if "y \<in> set ys" for y
    proof -
      from that ys(2) obtain c cs where "y = c # cs" "is_space c" by blast
      then have "\<not> prefix_ci l y" using l by auto
      then show ?thesis by (simp add: label)
    qed
    have "concat (map (ms (seq (lit l # T))) (map (\<lambda>r. (r, cap)) ys)) = []"
      using none by (induction ys) auto
    then show ?thesis
      unfolding ms_seq_Cons [of "Star Space"] using ys(1) by (simp add: space_ok)
  qed
  have "ms (seq (lit g # Star Space # lit l # T)) (inp, cap)
      = (if prefix_ci g inp then ms (seq (Star Space # lit l # T)) (drop (length g) inp, cap)
         else [])"
    unfolding ms_seq_Cons [of "lit g"] by (simp add: ms_lit)
  then show ?thesis
    by (simp add: spaces label marker_at_def after_marker_def)
qed

lemma section_match_at:
  assumes l: "l = p # ps" "\<And>c. is_space c \<Longrightarrow> canonicalize p \<noteq> canonicalize c"
    and B: "\<And>inp cap. ms B (inp, cap) = (if P inp then [(inp, cap)] else [])"
    and P0: "P []"
  shows "first_match (ms (seq [lit g, Star Space, lit l, Opt (Chr colon), Star Space,
                       Group (StarLazy AnyChar), B]) (inp, None))
       = (if marker_at g l inp
          then Some (Some (take_until P (section_body (after_marker g l inp)))) else None)"
proof -
  obtain rest where
    "ms (seq [Opt (Chr colon), Star Space, Group (StarLazy AnyChar), B])
        (after_marker g l inp, None)
     = (drop (length (take_until P (section_body (after_marker g l inp))))
          (section_body (after_marker g l inp)),
        Some (take_until P (section_body (after_marker g l inp)))) # rest"
    using tail_first [OF B P0] by blast
  then show ?thesis
    using marker_step [OF l, of g "[Opt (Chr colon), Star Space, Group (StarLazy AnyChar), B]"
        inp None]
    by (simp add: first_match_def)
qed

lemma section_match:
  assumes l: "l = p # ps" "\<And>c. is_space c \<Longrightarrow> canonicalize p \<noteq> canonicalize c"
    and B: "\<And>inp cap. ms B (inp, cap) = (if P inp then [(inp, cap)] else [])"
    and P0: "P []"
  shows "js_match s (seq [lit g, Star Space, lit l, Opt (Chr colon), Star Space,
                          Group (StarLazy AnyChar), B])
       = (case first_suffix (marker_at g l) s of
            None \<Rightarrow> None
          | Some inp \<Rightarrow> Some (Some (take_until P (section_body (after_marker g l inp)))))"
proof (induction s)
  case Nil
  show ?case
    by (simp add: section_match_at [OF l B P0])
next
  case (Cons c cs)
  show ?case
    using Cons.IH by (simp add: section_match_at [OF l B P0])
qed


lemma canonicalize_space: "is_space c \<Longrightarrow> canonicalize c = c"
  by (auto simp: is_space_def canonicalize_def word_le_nat_alt)

lemma space_not_capital:
  assumes "is_space c" "0x41 \<le> p" "p \<le> 0x5A"
  shows "canonicalize p \<noteq> canonicalize c"
proof -
  have "canonicalize p = p" using assms(2,3) by (auto simp: canonicalize_def word_le_nat_alt)
  moreover have "c \<noteq> p" using assms by (auto simp: is_space_def word_le_nat_alt)
  ultimately show ?thesis using canonicalize_space [OF assms(1)] by simp
qed

lemmas table_defs =
  marker_table_def keys_def glyph_of_def label_of_def stop_word_of_def later_keys_def
  stops_of_def

lemma stops_symptom: "stops_of ''symptom'' =
  [glyph_risk, ascii ''RISK_PREDICTOR'', glyph_fraud, ascii ''FRAUD_DETECTOR'',
   glyph_security, ascii ''SECURITY_GUARDIAN'', glyph_coordinator, ascii ''COORDINATOR'',
   glyph_recommendations, ascii ''RECOMMENDATIONS'']"
  by (simp add: table_defs)

lemma stops_risk: "stops_of ''risk'' =
  [glyph_fraud, ascii ''FRAUD_DETECTOR'',
   glyph_security, ascii ''SECURITY_GUARDIAN'', glyph_coordinator, ascii ''COORDINATOR'',
   glyph_recommendations, ascii ''RECOMMENDATIONS'']"
  by (simp add: table_defs)

lemma stops_fraud: "stops_of ''fraud'' =
  [glyph_security, ascii ''SECURITY_GUARDIAN'', glyph_coordinator, ascii ''COORDINATOR'',
   glyph_recommendations, ascii ''RECOMMENDATIONS'']"
  by (simp add: table_defs)

lemma stops_security: "stops_of ''security'' =
  [glyph_coordinator, ascii ''COORDINATOR'', glyph_recommendations, ascii ''RECOMMENDATIONS'']"
  by (simp add: table_defs)

lemma stops_coordinator: "stops_of ''coordinator'' =
  [glyph_recommendations, ascii ''RECOMMENDATIONS'']"
  by (simp add: table_defs)

lemma stops_recommendations: "stops_of ''recommendations'' = []"
  by (simp add: table_defs)

lemma key_match_general:
  assumes re: "re = seq [lit (glyph_of key), Star Space, lit (label_of key), Opt (Chr colon),
                         Star Space, Group (StarLazy AnyChar), B]"
    and l: "label_of key = p # ps" "0x41 \<le> p" "p \<le> 0x5A"
    and B: "\<And>inp cap. ms B (inp, cap) = (if stop_here (stops_of key) inp then [(inp, cap)] else [])"
  shows "js_match s re =
     (case first_suffix (marker_starts key) s of
        None \<Rightarrow> None
      | Some inp \<Rightarrow> Some (Some (section_capture key inp)))"
proof -
  have sp: "\<And>c. is_space c \<Longrightarrow> canonicalize p \<noteq> canonicalize c"
    by (rule space_not_capital [OF _ l(2,3)])
  have P0: "stop_here (stops_of key) []" by (simp add: stop_here_def)
  have ms: "marker_starts key = marker_at (glyph_of key) (label_of key)"
    by (rule ext) (simp add: marker_starts_def)
  show ?thesis
    unfolding re ms section_capture_def
    by (rule section_match [OF l(1) sp B P0])
qed

lemma match_symptom: "js_match s re_symptom =
     (case first_suffix (marker_starts ''symptom'') s of
        None \<Rightarrow> None | Some inp \<Rightarrow> Some (Some (section_capture ''symptom'' inp)))"
proof (rule key_match_general)
  show "re_symptom = seq [lit (glyph_of ''symptom''), Star Space, lit (label_of ''symptom''),
      Opt (Chr colon), Star Space, Group (StarLazy AnyChar),
      Ahead (alts (map lit (stops_of ''symptom'') @ [Eos]))]"
    unfolding stops_symptom by (simp add: re_symptom_def glyph_of_def label_of_def marker_table_def)
  show "label_of ''symptom'' = 0x53 # map of_char ''YMPTOM_ANALYZER''"
    by (simp add: label_of_def marker_table_def ascii_def)
  show "\<And>inp cap. ms (Ahead (alts (map lit (stops_of ''symptom'') @ [Eos]))) (inp, cap) =
       (if stop_here (stops_of ''symptom'') inp then [(inp, cap)] else [])"
    by (rule ms_ahead_stops)
qed simp_all

lemma match_risk: "js_match s re_risk =
     (case first_suffix (marker_starts ''risk'') s of
        None \<Rightarrow> None | Some inp \<Rightarrow> Some (Some (section_capture ''risk'' inp)))"
proof (rule key_match_general)
  show "re_risk = seq [lit (glyph_of ''risk''), Star Space, lit (label_of ''risk''),
      Opt (Chr colon), Star Space, Group (StarLazy AnyChar),
      Ahead (alts (map lit (stops_of ''risk'') @ [Eos]))]"
    unfolding stops_risk by (simp add: re_risk_def glyph_of_def label_of_def marker_table_def)
  show "label_of ''risk'' = 0x52 # map of_char ''ISK_PREDICTOR''"
    by (simp add: label_of_def marker_table_def ascii_def)
  show "\<And>inp cap. ms (Ahead (alts (map lit (stops_of ''risk'') @ [Eos]))) (inp, cap) =
       (if stop_here (stops_of ''risk'') inp then [(inp, cap)] else [])"
    by (rule ms_ahead_stops)
qed simp_all

lemma match_fraud: "js_match s re_fraud =
     (case first_suffix (marker_starts ''fraud'') s of
        None \<Rightarrow> None | Some inp \<Rightarrow> Some (Some (section_capture ''fraud'' inp)))"
proof (rule key_match_general)
  show "re_fraud = seq [lit (glyph_of ''fraud''), Star Space, lit (label_of ''fraud''),
      Opt (Chr colon), Star Space, Group (StarLazy AnyChar),
      Ahead (alts (map lit (stops_of ''fraud'') @ [Eos]))]"
    unfolding stops_fraud by (simp add: re_fraud_def glyph_of_def label_of_def marker_table_def)
  show "label_of ''fraud'' = 0x46 # map of_char ''RAUD_DETECTOR''"
    by (simp add: label_of_def marker_table_def ascii_def)
  show "\<And>inp cap. ms (Ahead (alts (map lit (stops_of ''fraud'') @ [Eos]))) (inp, cap) =
       (if stop_here (stops_of ''fraud'') inp then [(inp, cap)] else [])"
    by (rule ms_ahead_stops)
qed simp_all

lemma match_security: "js_match s re_security =
     (case first_suffix (marker_starts ''security'') s of
        None \<Rightarrow> None | Some inp \<Rightarrow> Some (Some (section_capture ''security'' inp)))"
proof (rule key_match_general)
  show "re_security = seq [lit (glyph_of ''security''), Star Space, lit (label_of ''security''),
      Opt (Chr colon), Star Space, Group (StarLazy AnyChar),
      Ahead (alts (map lit (stops_of ''security'') @ [Eos]))]"
    unfolding stops_security by (simp add: re_security_def glyph_of_def label_of_def marker_table_def)
  show "label_of ''security'' = 0x53 # map of_char ''ECURITY_GUARDIAN''"
    by (simp add: label_of_def marker_table_def ascii_def)
  show "\<And>inp cap. ms (Ahead (alts (map lit (stops_of ''security'') @ [Eos]))) (inp, cap) =
       (if stop_here (stops_of ''security'') inp then [(inp, cap)] else [])"
    by (rule ms_ahead_stops)
qed simp_all

lemma match_coordinator: "js_match s re_coordinator =
     (case first_suffix (marker_starts ''coordinator'') s of
        None \<Rightarrow> None | Some inp \<Rightarrow> Some (Some (section_capture ''coordinator'' inp)))"
proof (rule key_match_general)
  show "re_coordinator = seq [lit (glyph_of ''coordinator''), Star Space, lit (label_of ''coordinator''),
      Opt (Chr colon), Star Space, Group (StarLazy AnyChar),
      Ahead (alts (map lit (stops_of ''coordinator'') @ [Eos]))]"
    unfolding stops_coordinator by (simp add: re_coordinator_def glyph_of_def label_of_def marker_table_def)
  show "label_of ''coordinator'' = 0x43 # map of_char ''OORDINATOR_INSIGHTS''"
    by (simp add: label_of_def marker_table_def ascii_def)
  show "\<And>inp cap. ms (Ahead (alts (map lit (stops_of ''coordinator'') @ [Eos]))) (inp, cap) =
       (if stop_here (stops_of ''coordinator'') inp then [(inp, cap)] else [])"
    by (rule ms_ahead_stops)
qed simp_all

lemma match_recommendations: "js_match s re_recommendations =
     (case first_suffix (marker_starts ''recommendations'') s of
        None \<Rightarrow> None | Some inp \<Rightarrow> Some (Some (section_capture ''recommendations'' inp)))"
proof (rule key_match_general)
  show "re_recommendations = seq [lit (glyph_of ''recommendations''), Star Space,
      lit (label_of ''recommendations''), Opt (Chr colon), Star Space,
      Group (StarLazy AnyChar), Eos]"
    by (simp add: re_recommendations_def glyph_of_def label_of_def marker_table_def)
  show "label_of ''recommendations'' = 0x52 # map of_char ''ECOMMENDATIONS''"
    by (simp add: label_of_def marker_table_def ascii_def)
  show "\<And>inp cap. ms Eos (inp, cap) =
       (if stop_here (stops_of ''recommendations'') inp then [(inp, cap)] else [])"
    unfolding stops_recommendations by (rule ms_Eos_stops)
qed simp_all

lemma key_match:
  assumes "(key, re) \<in> set sections"
  shows "js_match s re =
     (case first_suffix (marker_starts key) s of
        None \<Rightarrow> None | Some inp \<Rightarrow> Some (Some (section_capture key inp)))"
  using assms
  by (auto simp: sections_def match_symptom match_risk match_fraud match_security
      match_coordinator match_recommendations)

lemma trim_Nil: "trim [] = []"
  by (simp add: trim_def)

lemma parse_step_alt:
  "parse_step s (k, re) ag =
     (case step_value s re of None \<Rightarrow> ag | Some v \<Rightarrow> AList.update k v ag)"
  by (simp add: parse_step_def step_value_def split: option.splits)

lemma fold_parse_keys:
  "set (map fst secs) \<subseteq> set (map fst ag) \<Longrightarrow>
     map fst (fold (parse_step s) secs ag) = map fst ag"
proof (induction secs arbitrary: ag)
  case Nil
  then show ?case by simp
next
  case (Cons kr secs)
  obtain k re where kr: "kr = (k, re)" by (cases kr)
  have same: "map fst (parse_step s kr ag) = map fst ag"
    using Cons.prems by (auto simp: kr parse_step_alt update_keys split: option.splits)
  have "set (map fst secs) \<subseteq> set (map fst (parse_step s kr ag))"
    unfolding same using Cons.prems by simp
  from Cons.IH [OF this] show ?case by (simp add: same)
qed

lemma fold_parse_value:
  "distinct (map fst secs) \<Longrightarrow>
     map_of (fold (parse_step s) secs ag) k =
       (case map_of secs k of
          None \<Rightarrow> map_of ag k
        | Some re \<Rightarrow> (case step_value s re of None \<Rightarrow> map_of ag k | Some v \<Rightarrow> Some v))"
proof (induction secs arbitrary: ag)
  case Nil
  then show ?case by simp
next
  case (Cons kr secs)
  obtain k' re' where kr: "kr = (k', re')" by (cases kr)
  have notin: "map_of secs k' = None"
    using Cons.prems by (simp add: kr map_of_eq_None_iff)
  have step: "map_of (parse_step s (k', re') ag) k =
      (if k = k' then (case step_value s re' of None \<Rightarrow> map_of ag k | Some v \<Rightarrow> Some v)
       else map_of ag k)" for k
    by (simp add: parse_step_alt update_conv' split: option.splits)
  have ih: "map_of (fold (parse_step s) secs (parse_step s (k', re') ag)) k
      = (case map_of secs k of
          None \<Rightarrow> map_of (parse_step s (k', re') ag) k
        | Some re \<Rightarrow> (case step_value s re of
                        None \<Rightarrow> map_of (parse_step s (k', re') ag) k | Some v \<Rightarrow> Some v))"
    using Cons.IH [of "parse_step s (k', re') ag"] Cons.prems by simp
  show ?case
  proof (cases "k = k'")
    case True
    show ?thesis
      unfolding True using notin
      by (simp add: kr ih [unfolded True] step split: option.splits)
  next
    case False
    then show ?thesis by (simp add: kr ih step split: option.splits)
  qed
qed

lemma parse_keys: "map fst (parseAgentResponse s) = keys"
proof -
  have "map fst (parseAgentResponse s) = map fst agents_init"
    unfolding parseAgentResponse_def
    by (rule fold_parse_keys) (simp add: sections_def agents_init_def)
  then show ?thesis by (simp add: agents_init_def keys_def marker_table_def)
qed

lemma keys_sections: "key \<in> set keys \<Longrightarrow> \<exists>re. map_of sections key = Some re \<and> (key, re) \<in> set sections"
  by (auto simp: keys_def marker_table_def sections_def)

lemma keys_init: "key \<in> set keys \<Longrightarrow> map_of agents_init key = Some (JStr [])"
  by (auto simp: keys_def marker_table_def agents_init_def)

lemma parse_value:
  assumes "key \<in> set keys"
  shows "map_of (parseAgentResponse s) key = Some (JStr (section_text key s))"
proof -
  obtain re where re: "map_of sections key = Some re" "(key, re) \<in> set sections"
    using keys_sections [OF assms] by blast
  have d: "distinct (map fst sections)" by (simp add: sections_def)
  have "map_of (parseAgentResponse s) key =
      (case step_value s re of None \<Rightarrow> Some (JStr []) | Some v \<Rightarrow> Some v)"
    unfolding parseAgentResponse_def fold_parse_value [OF d]
    by (simp add: re keys_init [OF assms] split: option.splits)
  also have "\<dots> = Some (JStr (section_text key s))"
    by (simp add: step_value_def key_match [OF re(2)] section_text_def trim_Nil
        split: option.splits)
  finally show ?thesis .
qed

section \<open>Where a capture ends\<close>






lemma stop_here_stops:
  "stop_here (stops_of key) rest \<longleftrightarrow>
     rest = [] \<or> (\<exists>k \<in> set (later_keys key).
                    prefix_ci (glyph_of k) rest \<or> prefix_ci (stop_word_of k) rest)"
  by (auto simp: stop_here_def stops_of_def list_ex_iff)


section \<open>The sample replies, evaluated\<close>

lemmas eval_defs =
  marker_starts_def marker_at_def after_marker_def section_capture_def
  section_body_def drop_colon_def stop_here_def trim_def is_space_def canonicalize_def
  colon_def ascii_def glyph_symptom_def glyph_risk_def glyph_fraud_def glyph_security_def
  glyph_coordinator_def glyph_recommendations_def glyph_of_def label_of_def
  stop_word_of_def marker_table_def

lemma later_symptom:
  "later_keys ''symptom'' = [''risk'', ''fraud'', ''security'', ''coordinator'', ''recommendations'']"
  by (simp add: later_keys_def keys_def marker_table_def)


lemma marker_first_lower_word:
  "first_suffix (marker_starts ''risk'') reply_lower_word = Some reply_lower_word"
  by (simp add: reply_lower_word_def eval_defs)

lemma capture_lower_word: "section_capture ''risk'' reply_lower_word = ascii ''ask ''"
  unfolding section_capture_def stops_risk
  by (simp add: reply_lower_word_def eval_defs)



lemma trim_ask: "trim (ascii ''ask '') = ascii ''ask''"
  by (simp add: trim_def ascii_def is_space_def)


lemma marker_first_label_only:
  "first_suffix (marker_starts ''symptom'') reply_label_only = Some reply_label_only"
  by (simp add: reply_label_only_def eval_defs)

lemma capture_label_only: "section_capture ''symptom'' reply_label_only = ascii ''see ''"
  unfolding section_capture_def stops_symptom
  by (simp add: reply_label_only_def eval_defs)

lemma trim_see: "trim (ascii ''see '') = ascii ''see''"
  by (simp add: trim_def ascii_def is_space_def)

lemma claimed_label_only:
  "claimed_text ''symptom'' reply_label_only = ascii ''see RECOMMENDATIONS''"
  unfolding claimed_text_def marker_first_label_only next_marker_here_def later_symptom
  by (simp add: reply_label_only_def eval_defs)


section \<open>The handlers, case by case\<close>

lemma analyze_cases:
  "analyze sv req =
     (if req_symptoms req = None \<or> req_symptoms req = Some [] \<or> req_age req = None
         \<or> req_age req = Some []
      then (error_response 400 ''Missing symptoms or age'', [])
      else
        (case fst (callOllama sv (analyze_messages req)) of
           Inl err \<Rightarrow> (ollama_failed, [ModelCall (analyze_messages req)])
         | Inr (JStr reply) \<Rightarrow>
             (case insert_case sv (case_row req (JStr reply) (parseAgentResponse reply)) of
                InsertRejects err \<Rightarrow>
                  (ollama_failed,
                   [ModelCall (analyze_messages req),
                    StoreInsert (case_row req (JStr reply) (parseAgentResponse reply))])
              | InsertResolves data (Some e) \<Rightarrow>
                  (error_response 500 ''Failed to save case to database'',
                   [ModelCall (analyze_messages req),
                    StoreInsert (case_row req (JStr reply) (parseAgentResponse reply))])
              | InsertResolves data None \<Rightarrow>
                  (\<lparr>status = 200,
                    body = [(''fullResponse'', JStr reply),
                            (''agents'', JObj (parseAgentResponse reply)),
                            (''caseId'', case_id data)]\<rparr>,
                   [ModelCall (analyze_messages req),
                    StoreInsert (case_row req (JStr reply) (parseAgentResponse reply))]))
         | Inr _ \<Rightarrow> (ollama_failed, [ModelCall (analyze_messages req)])))"
  by (auto simp: analyze_def callOllama_def field_def Let_def
      split: option.splits sum.splits jsval.splits fetch_outcome.splits insert_outcome.splits)

lemmas sample_defs =
  request_ok_def request_empty_symptoms_def request_age_abc_def services_ok_def
  services_model_down_def services_store_down_def

lemma analyze_store_down:
  "analyze services_store_down request_ok =
     (error_response 500 ''Failed to save case to database'',
      [ModelCall (analyze_messages request_ok),
       StoreInsert (case_row request_ok (JStr reply_lower_word)
                      (parseAgentResponse reply_lower_word))])"
  by (simp add: analyze_cases callOllama_def sample_defs ascii_def)

lemma analyze_model_down:
  "analyze services_model_down request_ok =
     (ollama_failed, [ModelCall (analyze_messages request_ok)])"
  by (simp add: analyze_cases callOllama_def sample_defs ascii_def)

lemma analyze_ok:
  "analyze services_ok request_ok =
     (\<lparr>status = 200,
       body = [(''fullResponse'', JStr reply_lower_word),
               (''agents'', JObj (parseAgentResponse reply_lower_word)),
               (''caseId'', JNum 7)]\<rparr>,
      [ModelCall (analyze_messages request_ok),
       StoreInsert (case_row request_ok (JStr reply_lower_word)
                      (parseAgentResponse reply_lower_word))])"
  by (simp add: analyze_cases callOllama_def sample_defs ascii_def case_id_def get_prop_def
      js_or_def)

lemma parse_value_str:
  "key \<in> set keys \<Longrightarrow> get_prop (parseAgentResponse s) key = JStr (section_text key s)"
  by (simp add: get_prop_def parse_value)

lemma section_columns_keys: "(col, key) \<in> set section_columns \<Longrightarrow> key \<in> set keys"
  by (auto simp: section_columns_def keys_def marker_table_def)

lemma case_row_columns:
  "list_all (\<lambda>(col, key).
      map_of (case_row req full agents) col = Some (js_or (get_prop agents key) JNull))
    section_columns"
  by (simp add: section_columns_def case_row_def)

lemma case_row_section:
  "(col, key) \<in> set section_columns \<Longrightarrow>
     map_of (case_row req full agents) col = Some (js_or (get_prop agents key) JNull)"
  using case_row_columns [of req full agents] by (auto simp: list_all_iff)

section \<open>The claims\<close>

text \<open>
  C1, as amended. For every reply and each of the six keys: when the start marker of the
  key (its emoji, any white space, its label in either letter case) occurs in the reply,
  \<^verbatim>\<open>parseAgentResponse\<close> returns for the key the text that follows the first such
  marker, one colon and the white space after it skipped, up to and without the first
  place where the emoji alone or the word alone of a later section (in the order symptom,
  risk, fraud, security, coordinator, recommendations; the word of the coordinator
  section is \<^verbatim>\<open>COORDINATOR\<close>) starts in either letter case, or up to the end of the
  reply when there is no such place; the text is trimmed of white space on both sides.
\<close>

theorem c1_section_until_stop_token:
  assumes "key \<in> set [''symptom'', ''risk'', ''fraud'', ''security'', ''coordinator'',
                        ''recommendations'']"
    and "first_suffix (marker_starts key) response = Some inp"
  shows "get_prop (parseAgentResponse response) key =
           JStr (trim (take_until (stop_here (stops_of key))
                   (section_body (after_marker (glyph_of key) (label_of key) inp))))
         \<and> (\<forall>rest. stop_here (stops_of key) rest \<longleftrightarrow>
               rest = [] \<or> (\<exists>k \<in> set (later_keys key).
                    prefix_ci (glyph_of k) rest \<or> prefix_ci (stop_word_of k) rest))"
proof -
  have "key \<in> set keys"
    using assms(1) by (simp add: keys_def marker_table_def)
  then have "get_prop (parseAgentResponse response) key = JStr (section_text key response)"
    by (rule parse_value_str)
  then show ?thesis
    using assms(2) stop_here_stops [of key]
    by (simp add: section_text_def section_capture_def)
qed

text \<open>The risk section of \<^verbatim>\<open>RISK_PREDICTOR: ask coordinator\<close> is \<^verbatim>\<open>ask\<close>.\<close>

theorem c1_section_until_stop_token_witness:
  "''risk'' \<in> set [''symptom'', ''risk'', ''fraud'', ''security'', ''coordinator'',
                    ''recommendations'']
   \<and> first_suffix (marker_starts ''risk'') reply_lower_word = Some reply_lower_word
   \<and> get_prop (parseAgentResponse reply_lower_word) ''risk'' = JStr (ascii ''ask'')"
proof -
  have h1: "''risk'' \<in> set [''symptom'', ''risk'', ''fraud'', ''security'', ''coordinator'',
                    ''recommendations'']"
    by simp
  from c1_section_until_stop_token [OF h1 marker_first_lower_word]
  have "get_prop (parseAgentResponse reply_lower_word) ''risk''
      = JStr (trim (section_capture ''risk'' reply_lower_word))"
    unfolding section_capture_def by blast
  then show ?thesis
    using h1 marker_first_lower_word by (simp add: capture_lower_word trim_ask)
qed

text \<open>
  C1 as stated (the section runs up to the next section marker, or to the end of the
  reply when no later marker occurs) fails: the reply below has the symptom marker and
  no marker of a later section, yet the symptom section is \<^verbatim>\<open>see\<close> and not
  \<^verbatim>\<open>see RECOMMENDATIONS\<close>.
\<close>

theorem c1_next_marker_counterexample:
  "has_marker ''symptom'' reply_label_only
   \<and> get_prop (parseAgentResponse reply_label_only) ''symptom'' = JStr (ascii ''see'')
   \<and> claimed_text ''symptom'' reply_label_only = ascii ''see RECOMMENDATIONS''
   \<and> get_prop (parseAgentResponse reply_label_only) ''symptom''
       \<noteq> JStr (claimed_text ''symptom'' reply_label_only)"
proof -
  have k: "''symptom'' \<in> set keys" by (simp add: keys_def marker_table_def)
  have v: "get_prop (parseAgentResponse reply_label_only) ''symptom'' = JStr (ascii ''see'')"
    by (simp add: parse_value_str [OF k] section_text_def marker_first_label_only
        capture_label_only trim_see)
  have d: "ascii ''see'' \<noteq> ascii ''see RECOMMENDATIONS''"
    by (simp add: ascii_def)
  show ?thesis
    using v d by (simp add: has_marker_def marker_first_label_only claimed_label_only)
qed

text \<open>
  C2. For every input string, the empty one and those without markers included, the
  result of \<^verbatim>\<open>parseAgentResponse\<close> has exactly the six keys symptom, risk, fraud,
  security, coordinator and recommendations; every value is a string, and a key whose
  start marker does not occur in the input maps to the empty string. The function is
  total: there is no input on which extraction fails.
\<close>

theorem c2_six_keys_absent_empty:
  "map fst (parseAgentResponse response)
     = [''symptom'', ''risk'', ''fraud'', ''security'', ''coordinator'', ''recommendations'']
   \<and> (\<forall>key \<in> set [''symptom'', ''risk'', ''fraud'', ''security'', ''coordinator'',
                     ''recommendations''].
        (\<exists>t. map_of (parseAgentResponse response) key = Some (JStr t))
        \<and> (\<not> has_marker key response \<longrightarrow>
             get_prop (parseAgentResponse response) key = JStr []))"
proof -
  have k: "keys = [''symptom'', ''risk'', ''fraud'', ''security'', ''coordinator'',
      ''recommendations'']"
    by (simp add: keys_def marker_table_def)
  have "\<not> has_marker key response \<Longrightarrow> get_prop (parseAgentResponse response) key = JStr []"
    if "key \<in> set keys" for key
    using that by (simp add: parse_value_str section_text_def has_marker_def)
  moreover have "\<exists>t. map_of (parseAgentResponse response) key = Some (JStr t)"
    if "key \<in> set keys" for key
    using that by (simp add: parse_value)
  ultimately show ?thesis
    unfolding k [symmetric] using parse_keys [of response] by blast
qed

text \<open>The reply \<^verbatim>\<open>ok\<close> has no fraud marker; its fraud section is the empty string.\<close>

theorem c2_six_keys_absent_empty_witness:
  "map fst (parseAgentResponse (ascii ''ok''))
     = [''symptom'', ''risk'', ''fraud'', ''security'', ''coordinator'', ''recommendations'']
   \<and> \<not> has_marker ''fraud'' (ascii ''ok'')
   \<and> get_prop (parseAgentResponse (ascii ''ok'')) ''fraud'' = JStr []"
proof -
  have h: "\<not> has_marker ''fraud'' (ascii ''ok'')"
    by (simp add: has_marker_def marker_starts_def marker_at_def glyph_of_def marker_table_def
        glyph_fraud_def ascii_def canonicalize_def)
  from c2_six_keys_absent_empty [of "ascii ''ok''"] h
  show ?thesis by simp
qed

text \<open>
  C3, as amended. The analyze handler answers 400 exactly when the symptoms field or the
  age field is missing or is the empty string (that is, falsy); the 400 response carries
  the error message and no model call and no store call has been made. With both fields
  non-empty the response is not a 400.
\<close>

theorem c3_validation:
  "(status (fst (analyze sv req)) = 400 \<longleftrightarrow>
      req_symptoms req = None \<or> req_symptoms req = Some [] \<or>
      req_age req = None \<or> req_age req = Some [])
   \<and> (status (fst (analyze sv req)) = 400 \<longrightarrow>
        fst (analyze sv req) = error_response 400 ''Missing symptoms or age''
        \<and> snd (analyze sv req) = [])"
  by (auto simp: analyze_cases error_response_def ollama_failed_def
      split: sum.splits jsval.splits insert_outcome.splits option.splits)

theorem c3_validation_witness:
  "status (fst (analyze services_ok request_ok)) \<noteq> 400
   \<and> status (fst (analyze services_ok (request_ok\<lparr>req_age := None\<rparr>))) = 400
   \<and> fst (analyze services_ok (request_ok\<lparr>req_age := None\<rparr>))
       = error_response 400 ''Missing symptoms or age''
   \<and> snd (analyze services_ok (request_ok\<lparr>req_age := None\<rparr>)) = []"
  using c3_validation [of services_ok request_ok]
    c3_validation [of services_ok "request_ok\<lparr>req_age := None\<rparr>"]
  by (simp add: request_ok_def ascii_def)

text \<open>
  C3 as stated (400 if and only if a field is missing) fails: a request whose symptoms
  field is present and empty is answered with 400.
\<close>

theorem c3_present_but_empty_counterexample:
  "req_symptoms request_empty_symptoms \<noteq> None
   \<and> req_age request_empty_symptoms \<noteq> None
   \<and> status (fst (analyze services_ok request_empty_symptoms)) = 400"
  by (simp add: analyze_cases request_empty_symptoms_def request_ok_def error_response_def)

text \<open>
  C4. When the analyze handler has inserted a row and the insert reports an error, the
  response is status 500 with a body that holds the error message and nothing else:
  neither \<^verbatim>\<open>fullResponse\<close> nor the extracted sections. The model call had succeeded
  with a string reply.
\<close>

theorem c4_store_error_only_error:
  assumes "StoreInsert row \<in> set (snd (analyze sv req))"
    and "insert_case sv row = InsertResolves data (Some err)"
  shows "fst (analyze sv req) =
           \<lparr>status = 500, body = [(''error'', JStr (ascii ''Failed to save case to database''))]\<rparr>
         \<and> (\<exists>reply. fst (callOllama sv (analyze_messages req)) = Inr (JStr reply))"
  using assms
  by (auto simp: analyze_cases error_response_def
      split: if_splits sum.splits jsval.splits insert_outcome.splits option.splits)

theorem c4_store_error_only_error_witness:
  "StoreInsert (case_row request_ok (JStr reply_lower_word) (parseAgentResponse reply_lower_word))
     \<in> set (snd (analyze services_store_down request_ok))
   \<and> insert_case services_store_down
        (case_row request_ok (JStr reply_lower_word) (parseAgentResponse reply_lower_word))
       = InsertResolves None (Some (JsError (ascii ''timeout'')))
   \<and> fst (analyze services_store_down request_ok) =
        \<lparr>status = 500, body = [(''error'', JStr (ascii ''Failed to save case to database''))]\<rparr>"
proof -
  have h1: "StoreInsert (case_row request_ok (JStr reply_lower_word)
                (parseAgentResponse reply_lower_word))
      \<in> set (snd (analyze services_store_down request_ok))"
    by (simp add: analyze_store_down)
  have h2: "insert_case services_store_down
        (case_row request_ok (JStr reply_lower_word) (parseAgentResponse reply_lower_word))
       = InsertResolves None (Some (JsError (ascii ''timeout'')))"
    by (simp add: services_store_down_def services_ok_def)
  from c4_store_error_only_error [OF h1 h2] h1 h2 show ?thesis by blast
qed

text \<open>
  C5. When the model call of the analyze handler throws, the response is status 500
  with an error field and no insert is attempted. The calls of one request are nothing,
  or one model call, or one model call followed by one insert; the insert is there only
  when the model call returned a string reply.
\<close>

theorem c5_model_before_store:
  "(\<forall>m err. ModelCall m \<in> set (snd (analyze sv req)) \<and> fst (callOllama sv m) = Inl err \<longrightarrow>
        status (fst (analyze sv req)) = 500
        \<and> map_of (body (fst (analyze sv req))) ''error'' \<noteq> None
        \<and> (\<forall>row. StoreInsert row \<notin> set (snd (analyze sv req))))
   \<and> (snd (analyze sv req) = []
       \<or> snd (analyze sv req) = [ModelCall (analyze_messages req)]
       \<or> (\<exists>row reply.
             snd (analyze sv req) = [ModelCall (analyze_messages req), StoreInsert row]
             \<and> fst (callOllama sv (analyze_messages req)) = Inr (JStr reply)))"
  by (auto simp: analyze_cases error_response_def ollama_failed_def
      split: if_splits sum.splits jsval.splits insert_outcome.splits option.splits)

theorem c5_model_before_store_witness:
  "ModelCall (analyze_messages request_ok) \<in> set (snd (analyze services_model_down request_ok))
   \<and> fst (callOllama services_model_down (analyze_messages request_ok))
       = Inl (JsError (ascii ''ECONNREFUSED''))
   \<and> status (fst (analyze services_model_down request_ok)) = 500
   \<and> map_of (body (fst (analyze services_model_down request_ok))) ''error'' \<noteq> None
   \<and> (\<forall>row. StoreInsert row \<notin> set (snd (analyze services_model_down request_ok)))"
proof -
  have h1: "ModelCall (analyze_messages request_ok)
      \<in> set (snd (analyze services_model_down request_ok))"
    by (simp add: analyze_model_down)
  have h2: "fst (callOllama services_model_down (analyze_messages request_ok))
       = Inl (JsError (ascii ''ECONNREFUSED''))"
    by (simp add: callOllama_def services_model_down_def services_ok_def)
  from c5_model_before_store [of services_model_down request_ok] h1 h2
  show ?thesis by blast
qed

text \<open>
  C6. For every analyze request answered with 200, each of the six section columns of
  the inserted row holds the extracted text when that text is not empty, and
  \<^verbatim>\<open>null\<close> when the extractor produced the empty string for the key.
\<close>

theorem c6_empty_section_stored_null:
  assumes "status (fst (analyze sv req)) = 200"
  shows "\<exists>reply row.
           fst (callOllama sv (analyze_messages req)) = Inr (JStr reply)
           \<and> snd (analyze sv req) = [ModelCall (analyze_messages req), StoreInsert row]
           \<and> (\<forall>(col, key) \<in> set section_columns.
                 \<exists>t. get_prop (parseAgentResponse reply) key = JStr t
                     \<and> map_of row col = Some (if t = [] then JNull else JStr t))"
proof -
  from assms obtain reply data where
    call: "fst (callOllama sv (analyze_messages req)) = Inr (JStr reply)"
    and tr: "snd (analyze sv req) =
      [ModelCall (analyze_messages req),
       StoreInsert (case_row req (JStr reply) (parseAgentResponse reply))]"
    by (auto simp: analyze_cases error_response_def ollama_failed_def
        split: if_splits sum.splits jsval.splits insert_outcome.splits option.splits)
  have "\<exists>t. get_prop (parseAgentResponse reply) key = JStr t
          \<and> map_of (case_row req (JStr reply) (parseAgentResponse reply)) col
              = Some (if t = [] then JNull else JStr t)"
    if "(col, key) \<in> set section_columns" for col key
    using that
    by (simp add: case_row_section parse_value_str [OF section_columns_keys] js_or_def)
  then show ?thesis using call tr by blast
qed

theorem c6_empty_section_stored_null_witness:
  "status (fst (analyze services_ok request_ok)) = 200
   \<and> (\<exists>reply row.
         fst (callOllama services_ok (analyze_messages request_ok)) = Inr (JStr reply)
         \<and> snd (analyze services_ok request_ok)
             = [ModelCall (analyze_messages request_ok), StoreInsert row]
         \<and> (\<forall>(col, key) \<in> set section_columns.
               \<exists>t. get_prop (parseAgentResponse reply) key = JStr t
                   \<and> map_of row col = Some (if t = [] then JNull else JStr t)))"
proof -
  have h: "status (fst (analyze services_ok request_ok)) = 200"
    by (simp add: analyze_ok)
  from c6_empty_section_stored_null [OF h] h show ?thesis by blast
qed

text \<open>
  C7. The claim is that the age written to the row is an integer for every string the
  client may supply. The handler accepts the age \<^verbatim>\<open>abc\<close> (it is not empty), calls the
  model, and inserts a row whose age is \<^verbatim>\<open>NaN\<close>.
\<close>

theorem c7_age_abc_stored_nan:
  "req_age request_age_abc = Some (ascii ''abc'')
   \<and> status (fst (analyze services_ok request_age_abc)) = 200
   \<and> map (\<lambda>e. case e of StoreInsert row \<Rightarrow> map_of row ''age'' | _ \<Rightarrow> None)
        (snd (analyze services_ok request_age_abc)) = [None, Some JNaN]"
  by (simp add: analyze_cases callOllama_def sample_defs ascii_def case_row_def to_text_def
      parseInt10_def is_space_def is_digit_def Let_def)

text \<open>The request passes the validation: both required fields are non-empty strings.\<close>

theorem c7_age_abc_stored_nan_witness:
  "truthy (field (req_symptoms request_age_abc))
   \<and> truthy (field (req_age request_age_abc))
   \<and> status (fst (analyze services_ok request_age_abc)) = 200
   \<and> map (\<lambda>e. case e of StoreInsert row \<Rightarrow> map_of row ''age'' | _ \<Rightarrow> None)
        (snd (analyze services_ok request_age_abc)) = [None, Some JNaN]"
  using c7_age_abc_stored_nan
  by (simp add: request_age_abc_def request_ok_def field_def ascii_def)



text \<open>
  C9. The health handler makes one read of the store and no other call. When the read
  succeeds the response is status 200 with body \<^verbatim>\<open>{status: "ok"}\<close>; when it fails
  (the read reports an error or rejects) the response is status 500 with status
  \<^verbatim>\<open>"error"\<close> and a message.
\<close>

theorem c9_health:
  "snd (health sv) = [StoreSelect]
   \<and> (select_case sv = SelectResolves None \<longrightarrow>
        fst (health sv) = \<lparr>status = 200, body = [(''status'', JStr (ascii ''ok''))]\<rparr>)
   \<and> (select_case sv \<noteq> SelectResolves None \<longrightarrow>
        status (fst (health sv)) = 500
        \<and> map_of (body (fst (health sv))) ''status'' = Some (JStr (ascii ''error''))
        \<and> (\<exists>msg. map_of (body (fst (health sv))) ''message'' = Some (JStr msg)))"
  by (auto simp: health_def split: select_outcome.splits option.splits)

theorem c9_health_witness:
  "select_case services_ok = SelectResolves None
   \<and> fst (health services_ok) = \<lparr>status = 200, body = [(''status'', JStr (ascii ''ok''))]\<rparr>
   \<and> select_case services_store_down \<noteq> SelectResolves None
   \<and> status (fst (health services_store_down)) = 500
   \<and> map_of (body (fst (health services_store_down))) ''status'' = Some (JStr (ascii ''error''))
   \<and> map_of (body (fst (health services_store_down))) ''message''
       = Some (JStr (ascii ''timeout''))"
  using c9_health [of services_ok] c9_health [of services_store_down]
  by (simp add: services_ok_def services_store_down_def health_def)

text \<open>
  C10. The chat handler validates nothing: for every request body it makes exactly one
  model call, whose two user turns are the fields \<^verbatim>\<open>caseContext\<close> and \<^verbatim>\<open>question\<close>
  as they came (\<^verbatim>\<open>undefined\<close> when absent); the response is 200 with the reply or
  500 with the error \<^verbatim>\<open>Chat failed\<close>, never 400.
\<close>

theorem c10_chat_no_validation:
  "snd (chat sv req) = [ModelCall (chat_messages req)]
   \<and> map content (tl (chat_messages req))
       = [field (req_caseContext req), field (req_question req)]
   \<and> field None = JUndefined
   \<and> ((\<exists>reply. fst (chat sv req) = \<lparr>status = 200, body = [(''reply'', reply)]\<rparr>)
       \<or> fst (chat sv req) = \<lparr>status = 500, body = [(''error'', JStr (ascii ''Chat failed''))]\<rparr>)
   \<and> status (fst (chat sv req)) \<noteq> 400"
  by (auto simp: chat_def callOllama_def chat_messages_def field_def error_response_def
      split: fetch_outcome.splits sum.splits prod.splits)

end
